theory Spec2Isabelle
  imports Main "HOL-Library.AList"
begin

section \<open>JavaScript values and faults\<close>

text \<open>
  The development embeds \<^verbatim>\<open>src/MIDI.js\<close>: the class \<^verbatim>\<open>Note\<close>, the two internal
  listeners \<^verbatim>\<open>_noteon\<close> and \<^verbatim>\<open>_noteoff\<close> of the class \<^verbatim>\<open>MIDI\<close>, the periodic
  callback that posts the buffer, and the getter \<^verbatim>\<open>MIDI.playing\<close>.

  Conventions. A leading underscore of a source name is written \<open>u_\<close> (\<^verbatim>\<open>_duration\<close> is
  \<open>u_duration\<close>). Numbers are \<open>int\<close>: keys, velocities and millisecond clock readings are
  integers far below \<open>2^53\<close>, where JavaScript arithmetic is exact. \<^verbatim>\<open>Date.now()\<close> is an
  argument \<open>now\<close> of whatever reads the clock. Objects that are shared and mutated
  (the \<^verbatim>\<open>Note\<close>s, the arrays bound to \<^verbatim>\<open>this._buffer\<close>) live in a store and are
  handled through references.
\<close>

datatype jsval =
    JUndefined
  | JNull
  | JBool bool
  | JNum int
  | JStr string
  | JFun string
  | JRef nat \<comment> \<open>a reference to a \<^verbatim>\<open>Note\<close> object\<close>

datatype error =
    TypeError \<comment> \<open>property access on \<^verbatim>\<open>undefined\<close>\<close>
  | NetworkError \<comment> \<open>the reason a rejected \<^verbatim>\<open>fetch\<close> promise is thrown with at \<^verbatim>\<open>await\<close>\<close>
  | SyntaxError \<comment> \<open>\<^verbatim>\<open>await\<close> in the body of a function that is not \<^verbatim>\<open>async\<close>\<close>

section \<open>The class Note\<close>

record Note =
  u_id :: string
  key :: int
  velocity :: int
  timestamp :: int
  u_duration :: "int option" \<comment> \<open>\<open>None\<close> is \<^verbatim>\<open>null\<close>\<close>

definition digit_char :: "nat \<Rightarrow> char" where
  "digit_char d = ''0123456789'' ! d"

fun show_nat :: "nat \<Rightarrow> string" where
  "show_nat n = (if n < 10 then [digit_char n] else show_nat (n div 10) @ [digit_char (n mod 10)])"

declare show_nat.simps [simp del]

text \<open>
  \<^verbatim>\<open>constructor(key, velocity, timestamp)\<close>. The first two arguments are the rendering of
  the module constant \<^verbatim>\<open>_TIMESTAMP\<close> and the value of the module counter \<^verbatim>\<open>_no\<close>
  that the template literal reads (the caller increments the counter).
\<close>

definition new_Note :: "string \<Rightarrow> nat \<Rightarrow> int \<Rightarrow> int \<Rightarrow> int \<Rightarrow> Note" where
  "new_Note ts n k v t =
     \<lparr>u_id = ts @ ''.'' @ show_nat n, key = k, velocity = v, timestamp = t, u_duration = None\<rparr>"

text \<open>\<^verbatim>\<open>get duration()\<close>: elapsed so far while \<^verbatim>\<open>_duration == null\<close>, the stored value after.\<close>

definition duration :: "int \<Rightarrow> Note \<Rightarrow> int" where
  "duration now n = (case u_duration n of None \<Rightarrow> now - timestamp n | Some d \<Rightarrow> d)"

text \<open>\<^verbatim>\<open>get playing()\<close>\<close>

definition playing :: "Note \<Rightarrow> bool" where
  "playing n = (u_duration n = None)"

text \<open>
  Reading a property of a \<^verbatim>\<open>Note\<close>. The own properties are the five the constructor
  assigns; the prototype adds the two getters and the method. Any other name, in particular
  \<^verbatim>\<open>id\<close>, is found nowhere on the prototype chain and reads as \<^verbatim>\<open>undefined\<close>.
\<close>

definition get_prop :: "int \<Rightarrow> Note \<Rightarrow> string \<Rightarrow> jsval" where
  "get_prop now n p =
     (if p = ''_id'' then JStr (u_id n)
      else if p = ''key'' then JNum (key n)
      else if p = ''velocity'' then JNum (velocity n)
      else if p = ''timestamp'' then JNum (timestamp n)
      else if p = ''_duration'' then (case u_duration n of None \<Rightarrow> JNull | Some d \<Rightarrow> JNum d)
      else if p = ''duration'' then JNum (duration now n)
      else if p = ''playing'' then JBool (playing n)
      else if p = ''toJSON'' then JFun ''toJSON''
      else JUndefined)"

text \<open>\<^verbatim>\<open>toJSON()\<close>: an object literal, as the list of its properties in order.\<close>

definition toJSON :: "int \<Rightarrow> Note \<Rightarrow> (string \<times> jsval) list" where
  "toJSON now n =
     [(''id'', get_prop now n ''id''),
      (''key'', get_prop now n ''key''),
      (''velocity'', get_prop now n ''velocity''),
      (''timestamp'', get_prop now n ''timestamp''),
      (''duration'', get_prop now n ''duration'')]"

text \<open>
  A \<^verbatim>\<open>Note\<close> defines no \<^verbatim>\<open>toString\<close>, so converting one to a string runs
  \<^verbatim>\<open>Object.prototype.toString\<close>.
\<close>

definition Note_toString :: "Note \<Rightarrow> string" where
  "Note_toString n = ''[object Object]''"

section \<open>The class MIDI\<close>

text \<open>
  The state: the module level (\<^verbatim>\<open>_TIMESTAMP\<close>, \<^verbatim>\<open>_no\<close>), the store, and the fields of the
  one \<^verbatim>\<open>MIDI\<close> object. A \<^verbatim>\<open>Note\<close> is referred to by the value \<^verbatim>\<open>_no\<close> had when it
  was constructed; a reference not yet handed out holds a \<^verbatim>\<open>Note\<close> nothing refers to.
  \<^verbatim>\<open>this.notes\<close> is a \<^verbatim>\<open>Map\<close>: an association list in insertion order, written
  \<open>notes_map\<close>, where \<^verbatim>\<open>set\<close> is \<open>AList.update\<close> (an existing key keeps its place, a new
  one goes last), \<^verbatim>\<open>get\<close> is \<open>map_of\<close>, \<^verbatim>\<open>delete\<close> is \<open>AList.delete\<close> and \<^verbatim>\<open>size\<close>
  is the length. \<^verbatim>\<open>this.log\<close> is only ever pushed to and is a list of references;
  \<^verbatim>\<open>this._buffer\<close> is rebound to other arrays, so it is a reference into \<open>arrays\<close>.
\<close>

record midi =
  U_TIMESTAMP :: string
  u_no :: nat
  heap :: "nat \<Rightarrow> Note"
  notes_map :: "(int \<times> nat) list"
  log :: "nat list"
  u_buffer :: nat
  arrays :: "nat \<Rightarrow> nat list"
  next_array :: nat

text \<open>\<^verbatim>\<open>constructor()\<close> of \<^verbatim>\<open>MIDI\<close>, in a freshly loaded module.\<close>

definition MIDI :: "string \<Rightarrow> midi" where
  "MIDI ts =
     \<lparr>U_TIMESTAMP = ts, u_no = 0, heap = (\<lambda>_. new_Note ts 0 0 0 0),
      notes_map = [], log = [], u_buffer = 0, arrays = (\<lambda>_. []), next_array = 1\<rparr>"

text \<open>The array \<^verbatim>\<open>this._buffer\<close> currently refers to.\<close>

definition pending :: "midi \<Rightarrow> nat list" where
  "pending st = arrays st (u_buffer st)"

text \<open>The \<^verbatim>\<open>detail\<close> object of the internal events \<^verbatim>\<open>_noteon\<close> and \<^verbatim>\<open>_noteoff\<close>.\<close>

datatype detail = Detail (d_key: int) (d_velocity: int) (d_timestamp: int)

datatype signal =
    KeyDown detail \<comment> \<open>\<^verbatim>\<open>CustomEvent('_noteon', {detail})\<close>\<close>
  | KeyUp detail \<comment> \<open>\<^verbatim>\<open>CustomEvent('_noteoff', {detail})\<close>\<close>

text \<open>
  A public notification is its type and its \<^verbatim>\<open>detail\<close>. \<^verbatim>\<open>new CustomEvent(type, init)\<close>
  takes the detail from the second argument and has \<^verbatim>\<open>detail\<close> \<^verbatim>\<open>null\<close> without one.
  \<^verbatim>\<open>dispatchEvent\<close> has one parameter; further arguments are evaluated and ignored.
\<close>

type_synonym custom_event = "string \<times> jsval"

definition CustomEvent :: "string \<Rightarrow> jsval option \<Rightarrow> custom_event" where
  "CustomEvent ty init = (ty, case init of None \<Rightarrow> JNull | Some d \<Rightarrow> d)"

definition dispatchEvent :: "custom_event \<Rightarrow> jsval list \<Rightarrow> custom_event" where
  "dispatchEvent ev ignored = ev"

text \<open>The listener of \<^verbatim>\<open>_noteon\<close>: the new state and the notifications it dispatched.\<close>

definition noteon :: "midi \<Rightarrow> detail \<Rightarrow> midi \<times> custom_event list" where
  "noteon st d =
     (let r = u_no st;
          note = new_Note (U_TIMESTAMP st) (u_no st) (d_key d) (d_velocity d) (d_timestamp d);
          st1 = st\<lparr>u_no := u_no st + 1, heap := (heap st)(r := note)\<rparr>;
          e1 = dispatchEvent (CustomEvent ''beforenoteon'' (Some (JRef r))) [];
          st2 = st1\<lparr>log := log st1 @ [r]\<rparr>;
          st3 = st2\<lparr>notes_map := AList.update (d_key d) r (notes_map st2)\<rparr>;
          e2 = dispatchEvent (CustomEvent ''noteon'' (Some (JRef r))) []
      in (st3, [e1, e2]))"

text \<open>
  The listener of \<^verbatim>\<open>_noteoff\<close>. \<^verbatim>\<open>this.notes.get(key)\<close> is \<^verbatim>\<open>undefined\<close> for a key that
  is not in the map, and the assignment to \<^verbatim>\<open>note._duration\<close> then throws a
  \<^verbatim>\<open>TypeError\<close> before anything is changed. Only \<^verbatim>\<open>key\<close> of the detail is read; the
  clock is read by the getter \<^verbatim>\<open>duration\<close>.
\<close>

definition noteoff :: "int \<Rightarrow> midi \<Rightarrow> detail \<Rightarrow> error + midi \<times> custom_event list" where
  "noteoff now st d =
     (case map_of (notes_map st) (d_key d) of
        None \<Rightarrow> Inl TypeError
      | Some r \<Rightarrow>
          (let note = heap st r;
               st1 = st\<lparr>heap := (heap st)(r := note\<lparr>u_duration := Some (duration now note)\<rparr>)\<rparr>;
               st2 = st1\<lparr>arrays := (arrays st1)(u_buffer st1 := arrays st1 (u_buffer st1) @ [r])\<rparr>;
               e1 = dispatchEvent (CustomEvent ''beforenoteoff'' None) [JRef r];
               st3 = st2\<lparr>notes_map := AList.delete (d_key d) (notes_map st2)\<rparr>;
               e2 = dispatchEvent (CustomEvent ''noteoff'' (Some (JRef r))) []
           in Inr (st3, [e1, e2])))"

text \<open>\<^verbatim>\<open>get playing()\<close> of \<^verbatim>\<open>MIDI\<close>\<close>

definition MIDI_playing :: "midi \<Rightarrow> bool" where
  "MIDI_playing st = (length (notes_map st) > 0)"

section \<open>The periodic flush\<close>

text \<open>
  The callback of \<^verbatim>\<open>setInterval\<close> (lines 147 to 164) is the arrow function
  \<^verbatim>\<open>() => { ... }\<close>, and its body uses \<^verbatim>\<open>await\<close> (line 152). The arrow function is
  not marked \<^verbatim>\<open>async\<close>, and \<^verbatim>\<open>await\<close> is not allowed in the body of such a function:
  the callback as the source has it is a \<^verbatim>\<open>SyntaxError\<close> and never runs. That is
  \<open>setInterval_callback\<close> below, at the declaration \<open>callback_declared\<close> of the source.

  \<open>flush_tick\<close> and \<open>flush_resume\<close> are the statements of the body, which run only
  when the arrow function is marked \<^verbatim>\<open>async\<close>: the callback then runs up to the call of
  \<^verbatim>\<open>fetch\<close>, is suspended, and is resumed when the promise settles. \<open>flush_tick\<close> is
  the part before the suspension; it returns the array the constant \<^verbatim>\<open>buffer\<close> is
  bound to and the request body. \<open>flush_resume\<close> is the part after it, given that array
  and how the promise settled.

  The request is built with \<^verbatim>\<open>body: buffer\<close>. An array is none of the body types
  \<^verbatim>\<open>fetch\<close> knows, so it is converted to a string: \<^verbatim>\<open>Array.prototype.toString\<close> joins
  the string conversions of the elements with commas.
\<close>

fun join :: "string \<Rightarrow> string list \<Rightarrow> string" where
  "join sep [] = []"
| "join sep [x] = x"
| "join sep (x # y # ys) = x @ sep @ join sep (y # ys)"

definition Array_toString :: "midi \<Rightarrow> nat \<Rightarrow> string" where
  "Array_toString st a = join '','' (map (\<lambda>r. Note_toString (heap st r)) (arrays st a))"

definition flush_tick :: "midi \<Rightarrow> midi \<times> (nat \<times> string) option" where
  "flush_tick st =
     (if length (arrays st (u_buffer st)) > 0 then
        (let buffer = u_buffer st;
             st1 = st\<lparr>arrays := (arrays st)(next_array st := []),
                      u_buffer := next_array st,
                      next_array := next_array st + 1\<rparr>
         in (st1, Some (buffer, Array_toString st1 buffer)))
      else (st, None))"

text \<open>
  How the promise of \<^verbatim>\<open>fetch\<close> settles: fulfilled with a response whose \<^verbatim>\<open>ok\<close> is
  given, or rejected. \<^verbatim>\<open>await\<close> throws on a rejected promise, which ends the callback
  at that point; \<^verbatim>\<open>buffer.concat(this._buffer)\<close> builds a new array.
\<close>

datatype outcome = Fulfilled bool | Rejected

definition flush_resume :: "nat \<Rightarrow> outcome \<Rightarrow> midi \<Rightarrow> error + midi" where
  "flush_resume buffer out st =
     (case out of
        Rejected \<Rightarrow> Inl NetworkError
      | Fulfilled ok \<Rightarrow>
          (if \<not> ok then
             Inr (st\<lparr>arrays := (arrays st)(next_array st := arrays st buffer @ arrays st (u_buffer st)),
                     u_buffer := next_array st,
                     next_array := next_array st + 1\<rparr>)
           else Inr st))"




section \<open>The event loop\<close>

text \<open>
  What the single-threaded event loop runs, one reaction at a time: a decoded signal
  (with the clock reading during its listener), a timer tick, or the settling of one of
  the outstanding sends. \<open>inflight\<close> lists the arrays held by the suspended callbacks.
  An exception thrown by a listener is reported by \<^verbatim>\<open>dispatchEvent\<close> and not thrown to
  its caller, and a callback that ends by a throw just ends: in both cases the loop goes
  on with the state as the reaction left it. \<open>Settle i\<close> settles the \<open>i\<close>-th outstanding
  send; with no such send it is no reaction of the program and the state stays as it is.

  \<open>Tick\<close> and \<open>Settle\<close> are the reactions of the callback marked \<^verbatim>\<open>async\<close>. The program
  as the source has it has no such reactions, since its callback never runs: its runs are
  the runs of \<open>Signal\<close> reactions alone, which the runs below include.
\<close>

record runtime =
  obj :: midi
  inflight :: "nat list"

datatype event =
    Signal int signal
  | Tick
  | Settle nat outcome

definition boot :: "string \<Rightarrow> runtime" where
  "boot ts = \<lparr>obj = MIDI ts, inflight = []\<rparr>"

fun step :: "event \<Rightarrow> runtime \<Rightarrow> runtime" where
  "step (Signal now (KeyDown d)) rt = rt\<lparr>obj := fst (noteon (obj rt) d)\<rparr>"
| "step (Signal now (KeyUp d)) rt =
     (case noteoff now (obj rt) d of
        Inl e \<Rightarrow> rt
      | Inr (st, evs) \<Rightarrow> rt\<lparr>obj := st\<rparr>)"
| "step Tick rt =
     (case flush_tick (obj rt) of
        (st, None) \<Rightarrow> rt\<lparr>obj := st\<rparr>
      | (st, Some (b, body)) \<Rightarrow> rt\<lparr>obj := st, inflight := inflight rt @ [b]\<rparr>)"
| "step (Settle i out) rt =
     (if i < length (inflight rt) then
        (let b = inflight rt ! i;
             rt1 = rt\<lparr>inflight := take i (inflight rt) @ drop (Suc i) (inflight rt)\<rparr>
         in (case flush_resume b out (obj rt1) of
               Inl e \<Rightarrow> rt1
             | Inr st \<Rightarrow> rt1\<lparr>obj := st\<rparr>))
      else rt)"

fun run :: "event list \<Rightarrow> runtime \<Rightarrow> runtime" where
  "run [] rt = rt"
| "run (e # es) rt = run es (step e rt)"

section \<open>Notions the properties are stated with\<close>

text \<open>A key is present in the registry: \<^verbatim>\<open>this.notes\<close> has an entry for it.\<close>

definition isActive :: "midi \<Rightarrow> int \<Rightarrow> bool" where
  "isActive st k = (map_of (notes_map st) k \<noteq> None)"

text \<open>The signals among the reactions of a run, in order.\<close>

fun signals :: "event list \<Rightarrow> signal list" where
  "signals [] = []"
| "signals (Signal now s # es) = s # signals es"
| "signals (Tick # es) = signals es"
| "signals (Settle i out # es) = signals es"

text \<open>
  A key is held after a sequence of signals when a \<open>KeyDown\<close> for it has occurred with no
  \<open>KeyUp\<close> for it after that \<open>KeyDown\<close>.
\<close>

fun is_keyup_for :: "int \<Rightarrow> signal \<Rightarrow> bool" where
  "is_keyup_for k (KeyUp d) = (d_key d = k)"
| "is_keyup_for k (KeyDown d) = False"

fun held :: "int \<Rightarrow> signal list \<Rightarrow> bool" where
  "held k [] = False"
| "held k (KeyDown d # ss) = ((d_key d = k \<and> \<not> list_ex (is_keyup_for k) ss) \<or> held k ss)"
| "held k (KeyUp d # ss) = held k ss"

text \<open>A reaction concerns a key when it is a signal for that key.\<close>

fun concerns :: "int \<Rightarrow> event \<Rightarrow> bool" where
  "concerns k (Signal now (KeyDown d)) = (d_key d = k)"
| "concerns k (Signal now (KeyUp d)) = (d_key d = k)"
| "concerns k Tick = False"
| "concerns k (Settle i out) = False"

text \<open>
  Two reactions are alike up to the velocity and the timestamp of a \<open>KeyUp\<close>: the same
  reaction, or two \<open>KeyUp\<close> signals for the same key handled at the same clock reading.
\<close>

fun keyup_alike :: "event \<Rightarrow> event \<Rightarrow> bool" where
  "keyup_alike (Signal now (KeyUp d)) (Signal now' (KeyUp d')) = (now = now' \<and> d_key d = d_key d')"
| "keyup_alike e e' = (e = e')"

text \<open>
  Invariants of the reachable states. Every entry of the registry refers to a constructed
  \<^verbatim>\<open>Note\<close> that is still playing and has the entry's key; the log holds the references
  in construction order; the arrays of the suspended sends are older than, and different
  from, the array \<^verbatim>\<open>this._buffer\<close> refers to; and every element of any of these arrays
  is a logged \<^verbatim>\<open>Note\<close> whose duration is frozen.
\<close>

definition registry_ok :: "midi \<Rightarrow> bool" where
  "registry_ok st =
     (\<forall>k r. map_of (notes_map st) k = Some r \<longrightarrow>
        r < u_no st \<and> playing (heap st r) \<and> key (heap st r) = k)"

definition log_ok :: "midi \<Rightarrow> bool" where
  "log_ok st = (log st = [0 ..< u_no st])"

definition detached :: "nat \<Rightarrow> midi \<Rightarrow> bool" where
  "detached b st = (b < next_array st \<and> b \<noteq> u_buffer st)"

definition arrays_ok :: "runtime \<Rightarrow> bool" where
  "arrays_ok rt =
     (u_buffer (obj rt) < next_array (obj rt) \<and> (\<forall>b \<in> set (inflight rt). detached b (obj rt)))"

definition completed :: "midi \<Rightarrow> nat \<Rightarrow> bool" where
  "completed st r = (r \<in> set (log st) \<and> \<not> playing (heap st r))"

definition buffers_ok :: "runtime \<Rightarrow> bool" where
  "buffers_ok rt =
     (\<forall>b \<in> insert (u_buffer (obj rt)) (set (inflight rt)).
        \<forall>r \<in> set (arrays (obj rt) b). completed (obj rt) r)"

definition inv :: "runtime \<Rightarrow> bool" where
  "inv rt = (registry_ok (obj rt) \<and> log_ok (obj rt) \<and> arrays_ok rt \<and> buffers_ok rt)"

section \<open>Basic facts\<close>

lemma show_nat_0: "show_nat 0 = ''0''"
  by (simp add: show_nat.simps digit_char_def)

lemma show_nat_12: "show_nat 12 = ''12''"
  by (simp add: show_nat.simps digit_char_def)

lemma noteon_fields [simp]:
  "U_TIMESTAMP (fst (noteon st d)) = U_TIMESTAMP st"
  "u_no (fst (noteon st d)) = Suc (u_no st)"
  "heap (fst (noteon st d)) =
     (heap st)(u_no st := new_Note (U_TIMESTAMP st) (u_no st) (d_key d) (d_velocity d) (d_timestamp d))"
  "notes_map (fst (noteon st d)) = AList.update (d_key d) (u_no st) (notes_map st)"
  "log (fst (noteon st d)) = log st @ [u_no st]"
  "u_buffer (fst (noteon st d)) = u_buffer st"
  "arrays (fst (noteon st d)) = arrays st"
  "next_array (fst (noteon st d)) = next_array st"
  by (simp_all add: noteon_def Let_def)

lemma noteon_events:
  "snd (noteon st d) = [(''beforenoteon'', JRef (u_no st)), (''noteon'', JRef (u_no st))]"
  by (simp add: noteon_def Let_def dispatchEvent_def CustomEvent_def)

lemma noteoff_absent:
  "map_of (notes_map st) (d_key d) = None \<Longrightarrow> noteoff now st d = Inl TypeError"
  by (simp add: noteoff_def)

lemma noteoff_present:
  "map_of (notes_map st) (d_key d) = Some r \<Longrightarrow>
   noteoff now st d =
     Inr (st\<lparr>heap := (heap st)(r := (heap st r)\<lparr>u_duration := Some (duration now (heap st r))\<rparr>),
              arrays := (arrays st)(u_buffer st := arrays st (u_buffer st) @ [r]),
              notes_map := AList.delete (d_key d) (notes_map st)\<rparr>,
          [(''beforenoteoff'', JNull), (''noteoff'', JRef r)])"
  by (simp add: noteoff_def Let_def dispatchEvent_def CustomEvent_def)

section \<open>One reaction at a time\<close>

lemma step_KeyDown:
  "step (Signal now (KeyDown d)) rt = rt\<lparr>obj := fst (noteon (obj rt) d)\<rparr>"
  by simp

lemma step_KeyUp_absent:
  "map_of (notes_map (obj rt)) (d_key d) = None \<Longrightarrow> step (Signal now (KeyUp d)) rt = rt"
  by (simp add: noteoff_absent)

lemma step_KeyUp_present:
  "map_of (notes_map (obj rt)) (d_key d) = Some r \<Longrightarrow>
   step (Signal now (KeyUp d)) rt =
     rt\<lparr>obj := (obj rt)\<lparr>heap := (heap (obj rt))(r := (heap (obj rt) r)\<lparr>u_duration := Some (duration now (heap (obj rt) r))\<rparr>),
              arrays := (arrays (obj rt))(u_buffer (obj rt) := arrays (obj rt) (u_buffer (obj rt)) @ [r]),
              notes_map := AList.delete (d_key d) (notes_map (obj rt))\<rparr>\<rparr>"
  by (simp add: noteoff_present)

lemma step_Tick_empty:
  "pending (obj rt) = [] \<Longrightarrow> step Tick rt = rt"
  by (simp add: flush_tick_def pending_def)

lemma step_Tick_nonempty:
  "pending (obj rt) \<noteq> [] \<Longrightarrow>
   step Tick rt =
     rt\<lparr>obj := (obj rt)\<lparr>arrays := (arrays (obj rt))(next_array (obj rt) := []),
                          u_buffer := next_array (obj rt),
                          next_array := next_array (obj rt) + 1\<rparr>,
        inflight := inflight rt @ [u_buffer (obj rt)]\<rparr>"
  by (simp add: flush_tick_def pending_def Let_def)

lemma step_Settle_none:
  "\<not> i < length (inflight rt) \<Longrightarrow> step (Settle i out) rt = rt"
  by simp

lemma step_Settle_quiet:
  "i < length (inflight rt) \<Longrightarrow> out = Rejected \<or> out = Fulfilled True \<Longrightarrow>
   step (Settle i out) rt = rt\<lparr>inflight := take i (inflight rt) @ drop (Suc i) (inflight rt)\<rparr>"
  by (auto simp add: flush_resume_def Let_def)

lemma step_Settle_not_ok:
  "i < length (inflight rt) \<Longrightarrow>
   step (Settle i (Fulfilled False)) rt =
     rt\<lparr>inflight := take i (inflight rt) @ drop (Suc i) (inflight rt),
        obj := (obj rt)\<lparr>arrays := (arrays (obj rt))(next_array (obj rt) :=
                              arrays (obj rt) (inflight rt ! i) @ arrays (obj rt) (u_buffer (obj rt))),
                          u_buffer := next_array (obj rt),
                          next_array := next_array (obj rt) + 1\<rparr>\<rparr>"
  by (simp add: flush_resume_def Let_def)

declare step.simps [simp del]

lemmas step_simps = step_KeyDown step_KeyUp_absent step_KeyUp_present step_Tick_empty
  step_Tick_nonempty step_Settle_none step_Settle_quiet step_Settle_not_ok

text \<open>Case analysis of one reaction.\<close>

lemma step_cases [case_names KeyDown KeyUp_absent KeyUp_present Tick_empty Tick_nonempty
    Settle_none Settle_quiet Settle_not_ok]:
  assumes "\<And>now d. e = Signal now (KeyDown d) \<Longrightarrow> P"
    and "\<And>now d. e = Signal now (KeyUp d) \<Longrightarrow>
           map_of (notes_map (obj (rt :: runtime))) (d_key d) = None \<Longrightarrow> P"
    and "\<And>now d r. e = Signal now (KeyUp d) \<Longrightarrow> map_of (notes_map (obj rt)) (d_key d) = Some r \<Longrightarrow> P"
    and "e = Tick \<Longrightarrow> pending (obj rt) = [] \<Longrightarrow> P"
    and "e = Tick \<Longrightarrow> pending (obj rt) \<noteq> [] \<Longrightarrow> P"
    and "\<And>i out. e = Settle i out \<Longrightarrow> \<not> i < length (inflight rt) \<Longrightarrow> P"
    and "\<And>i out. e = Settle i out \<Longrightarrow> i < length (inflight rt) \<Longrightarrow>
           out = Rejected \<or> out = Fulfilled True \<Longrightarrow> P"
    and "\<And>i. e = Settle i (Fulfilled False) \<Longrightarrow> i < length (inflight rt) \<Longrightarrow> P"
  shows P
proof (cases e)
  case (Signal now s)
  show ?thesis
  proof (cases s)
    case (KeyDown d)
    with Signal assms(1) show ?thesis by simp
  next
    case (KeyUp d)
    with Signal assms(2,3) show ?thesis
      by (cases "map_of (notes_map (obj rt)) (d_key d)") auto
  qed
next
  case Tick
  with assms(4,5) show ?thesis by blast
next
  case (Settle i out)
  show ?thesis
  proof (cases "i < length (inflight rt)")
    case False
    with Settle assms(6) show ?thesis by blast
  next
    case True
    show ?thesis
    proof (cases out)
      case (Fulfilled ok)
      with True Settle assms(7,8) show ?thesis by (cases ok) auto
    next
      case Rejected
      with True Settle assms(7) show ?thesis by blast
    qed
  qed
qed

section \<open>The invariants hold in every reachable state\<close>

lemma registry_ok_step: "registry_ok (obj rt) \<Longrightarrow> registry_ok (obj (step e rt))"
proof (cases rule: step_cases [where e = e and rt = rt])
  case (KeyDown now d)
  assume ok: "registry_ok (obj rt)"
  show ?thesis
    unfolding registry_ok_def
  proof (intro allI impI)
    fix k r
    assume m: "map_of (notes_map (obj (step e rt))) k = Some r"
    show "r < u_no (obj (step e rt)) \<and> playing (heap (obj (step e rt)) r) \<and> key (heap (obj (step e rt)) r) = k"
    proof (cases "k = d_key d")
      case True
      with m KeyDown have "r = u_no (obj rt)" by (simp add: step_KeyDown update_conv')
      with True KeyDown show ?thesis by (simp add: step_KeyDown new_Note_def playing_def)
    next
      case False
      with m KeyDown have "map_of (notes_map (obj rt)) k = Some r"
        by (simp add: step_KeyDown update_conv')
      with ok have "r < u_no (obj rt) \<and> playing (heap (obj rt) r) \<and> key (heap (obj rt) r) = k"
        by (simp add: registry_ok_def)
      with KeyDown show ?thesis by (simp add: step_KeyDown)
    qed
  qed
next
  case (KeyUp_present now d r0)
  assume ok: "registry_ok (obj rt)"
  from ok KeyUp_present(2) have k0: "key (heap (obj rt) r0) = d_key d"
    by (simp add: registry_ok_def)
  show ?thesis
    unfolding registry_ok_def
  proof (intro allI impI)
    fix k r
    assume m: "map_of (notes_map (obj (step e rt))) k = Some r"
    from m KeyUp_present have ne: "k \<noteq> d_key d"
      by (auto simp add: step_KeyUp_present delete_conv' split: if_splits)
    with m KeyUp_present have old: "map_of (notes_map (obj rt)) k = Some r"
      by (simp add: step_KeyUp_present)
    with ok have *: "r < u_no (obj rt) \<and> playing (heap (obj rt) r) \<and> key (heap (obj rt) r) = k"
      by (simp add: registry_ok_def)
    with k0 ne have "r \<noteq> r0" by auto
    with * KeyUp_present
    show "r < u_no (obj (step e rt)) \<and> playing (heap (obj (step e rt)) r) \<and> key (heap (obj (step e rt)) r) = k"
      by (simp add: step_KeyUp_present)
  qed
qed (simp_all add: step_simps registry_ok_def)

lemma log_ok_step: "log_ok (obj rt) \<Longrightarrow> log_ok (obj (step e rt))"
  by (cases rule: step_cases [where e = e and rt = rt])
    (simp_all add: step_simps log_ok_def)


lemma detached_step:
  "detached b (obj rt) \<Longrightarrow>
   detached b (obj (step e rt)) \<and> arrays (obj (step e rt)) b = arrays (obj rt) b"
  by (cases rule: step_cases [where e = e and rt = rt])
    (simp_all add: step_simps detached_def)

lemma arrays_ok_step: "arrays_ok rt \<Longrightarrow> arrays_ok (step e rt)"
proof (cases rule: step_cases [where e = e and rt = rt])
  case Tick_nonempty
  assume "arrays_ok rt"
  with Tick_nonempty show ?thesis
    by (auto simp add: step_simps arrays_ok_def detached_def)
next
  case (Settle_quiet i out)
  assume "arrays_ok rt"
  with Settle_quiet show ?thesis
    by (auto simp add: step_simps arrays_ok_def detached_def dest: in_set_takeD in_set_dropD)
next
  case (Settle_not_ok i)
  assume "arrays_ok rt"
  with Settle_not_ok show ?thesis
    by (fastforce simp add: step_simps arrays_ok_def detached_def dest: in_set_takeD in_set_dropD)
qed (simp_all add: step_simps arrays_ok_def detached_def)

lemma completed_step:
  assumes "log_ok (obj rt)" and "completed (obj rt) r"
  shows "completed (obj (step e rt)) r"
  using assms
  by (cases rule: step_cases [where e = e and rt = rt])
    (auto simp add: step_simps completed_def log_ok_def playing_def)

lemma buffers_ok_step:
  assumes reg: "registry_ok (obj rt)" and lg: "log_ok (obj rt)" and bo: "buffers_ok rt"
  shows "buffers_ok (step e rt)"
proof -
  have keep: "\<And>b r. b \<in> insert (u_buffer (obj rt)) (set (inflight rt)) \<Longrightarrow>
      r \<in> set (arrays (obj rt) b) \<Longrightarrow> completed (obj (step e rt)) r"
    using bo lg by (auto simp add: buffers_ok_def intro: completed_step)
  show ?thesis
  proof (cases rule: step_cases [where e = e and rt = rt])
    case (KeyDown now d)
    with keep show ?thesis
      by (auto simp add: buffers_ok_def step_KeyDown)
  next
    case (KeyUp_absent now d)
    with bo show ?thesis by (simp add: step_simps)
  next
    case (KeyUp_present now d r0)
    from reg KeyUp_present(2) have "r0 < u_no (obj rt)"
      by (simp add: registry_ok_def)
    with lg have "r0 \<in> set (log (obj rt))" by (simp add: log_ok_def)
    with KeyUp_present have "completed (obj (step e rt)) r0"
      by (simp add: step_simps completed_def playing_def)
    with keep KeyUp_present show ?thesis
      unfolding buffers_ok_def
      by (auto simp add: step_KeyUp_present split: if_splits)
  next
    case Tick_empty
    with bo show ?thesis by (simp add: step_simps)
  next
    case Tick_nonempty
    with keep show ?thesis
      unfolding buffers_ok_def
      by (auto simp add: step_Tick_nonempty split: if_splits)
  next
    case (Settle_none i out)
    with bo show ?thesis by (simp add: step_simps)
  next
    case (Settle_quiet i out)
    with keep show ?thesis
      unfolding buffers_ok_def
      by (auto simp add: step_Settle_quiet dest: in_set_takeD in_set_dropD)
  next
    case (Settle_not_ok i)
    then have "inflight rt ! i \<in> insert (u_buffer (obj rt)) (set (inflight rt))" by simp
    then have "\<And>r. r \<in> set (arrays (obj rt) (inflight rt ! i)) \<Longrightarrow> completed (obj (step e rt)) r"
      by (rule keep)
    with keep Settle_not_ok show ?thesis
      unfolding buffers_ok_def
      by (auto simp add: step_Settle_not_ok split: if_splits dest: in_set_takeD in_set_dropD)
  qed
qed

lemma inv_step: "inv rt \<Longrightarrow> inv (step e rt)"
  by (simp add: inv_def registry_ok_step log_ok_step arrays_ok_step buffers_ok_step)

lemma inv_boot: "inv (boot ts)"
  by (simp add: inv_def boot_def MIDI_def registry_ok_def log_ok_def arrays_ok_def buffers_ok_def)

lemma inv_run: "inv rt \<Longrightarrow> inv (run es rt)"
  by (induction es arbitrary: rt) (simp_all add: inv_step)

lemma run_append: "run (es @ es') rt = run es' (run es rt)"
  by (induction es arbitrary: rt) simp_all

section \<open>The registry and the signals\<close>

lemma held_snoc_KeyDown: "held k (ss @ [KeyDown d]) = (d_key d = k \<or> held k ss)"
  by (induction k ss rule: held.induct) auto

lemma held_snoc_KeyUp: "held k (ss @ [KeyUp d]) = (d_key d \<noteq> k \<and> held k ss)"
  by (induction k ss rule: held.induct) auto

lemma signals_append: "signals (es @ es') = signals es @ signals es'"
  by (induction es rule: signals.induct) simp_all

lemma registry_step:
  "isActive (obj (step e rt)) k =
     (case e of
        Signal now (KeyDown d) \<Rightarrow> d_key d = k \<or> isActive (obj rt) k
      | Signal now (KeyUp d) \<Rightarrow> d_key d \<noteq> k \<and> isActive (obj rt) k
      | _ \<Rightarrow> isActive (obj rt) k)"
  by (cases rule: step_cases [where e = e and rt = rt])
    (auto simp add: isActive_def step_simps update_conv' delete_conv')

lemma registry_run:
  "isActive (obj (run es (boot ts))) k = held k (signals es)"
proof (induction es rule: rev_induct)
  case Nil
  show ?case by (simp add: isActive_def boot_def MIDI_def)
next
  case (snoc e es)
  show ?case
  proof (cases e)
    case (Signal now s)
    with snoc show ?thesis
      by (cases s)
        (simp_all add: run_append registry_step signals_append held_snoc_KeyDown held_snoc_KeyUp)
  next
    case Tick
    with snoc show ?thesis by (simp add: run_append registry_step signals_append)
  next
    case (Settle i out)
    with snoc show ?thesis by (simp add: run_append registry_step signals_append)
  qed
qed

lemma MIDI_playing_iff: "MIDI_playing st = (\<exists>k. isActive st k)"
  by (cases "notes_map st") (auto simp add: MIDI_playing_def isActive_def)

text \<open>
  C5. After any sequence of reactions from the initial state, a key is present in the
  registry exactly when a \<open>KeyDown\<close> for it has occurred with no \<open>KeyUp\<close> for it since, and
  \<^verbatim>\<open>MIDI.playing\<close> is true exactly when some key is present. A \<open>KeyUp\<close> for a key that
  is not present leaves the registry as it is, since its listener throws before it
  changes anything.
\<close>

theorem registry_iff_held:
  assumes "rt = run es (boot ts)"
  shows "(isActive (obj rt) k = held k (signals es)) \<and>
         (MIDI_playing (obj rt) = (\<exists>k'. isActive (obj rt) k'))"
  using assms by (simp add: registry_run MIDI_playing_iff)

theorem registry_iff_held_witness:
  "isActive (obj (run [Signal 1000 (KeyDown (Detail 60 80 1000)),
        Signal 1200 (KeyDown (Detail 62 70 1200)),
        Signal 1500 (KeyUp (Detail 60 0 1500))] (boot ''0''))) 62 \<and>
   held 62 [KeyDown (Detail 60 80 1000), KeyDown (Detail 62 70 1200), KeyUp (Detail 60 0 1500)] \<and>
   \<not> isActive (obj (run [Signal 1000 (KeyDown (Detail 60 80 1000)),
        Signal 1200 (KeyDown (Detail 62 70 1200)),
        Signal 1500 (KeyUp (Detail 60 0 1500))] (boot ''0''))) 60 \<and>
   \<not> held 60 [KeyDown (Detail 60 80 1000), KeyDown (Detail 62 70 1200), KeyUp (Detail 60 0 1500)] \<and>
   MIDI_playing (obj (run [Signal 1000 (KeyDown (Detail 60 80 1000)),
        Signal 1200 (KeyDown (Detail 62 70 1200)),
        Signal 1500 (KeyUp (Detail 60 0 1500))] (boot ''0'')))"
  using registry_iff_held [of "run [Signal 1000 (KeyDown (Detail 60 80 1000)),
        Signal 1200 (KeyDown (Detail 62 70 1200)),
        Signal 1500 (KeyUp (Detail 60 0 1500))] (boot ''0'')" _ "''0''" 62]
    registry_iff_held [of "run [Signal 1000 (KeyDown (Detail 60 80 1000)),
        Signal 1200 (KeyDown (Detail 62 70 1200)),
        Signal 1500 (KeyUp (Detail 60 0 1500))] (boot ''0'')" _ "''0''" 60]
  by (simp add: step.simps boot_def MIDI_def noteoff_def Let_def MIDI_playing_def isActive_def)

section \<open>What the delivery buffer holds\<close>

lemma buffers_ok_run: "buffers_ok (run es (boot ts))"
  using inv_run [OF inv_boot, of es ts] by (simp add: inv_def)

lemma noteoff_pushes_completed:
  assumes "inv rt" and "noteoff now (obj rt) d = Inr (st', ns)"
  shows "\<exists>r. map_of (notes_map (obj rt)) (d_key d) = Some r \<and>
     pending st' = pending (obj rt) @ [r] \<and> completed st' r"
proof (cases "map_of (notes_map (obj rt)) (d_key d)")
  case None
  with assms(2) show ?thesis by (simp add: noteoff_absent)
next
  case (Some r)
  from assms(1) Some have "r < u_no (obj rt)"
    by (simp add: inv_def registry_ok_def)
  with assms(1) have "r \<in> set (log (obj rt))"
    by (simp add: inv_def log_ok_def)
  with assms(2) Some show ?thesis
    by (auto simp add: noteoff_present pending_def completed_def playing_def)
qed

text \<open>
  C9. In every reachable state, every element of the array \<^verbatim>\<open>this._buffer\<close> refers to,
  and of every array held by a suspended send, is a \<^verbatim>\<open>Note\<close> that is not playing and
  that is in the log. Moreover, whenever the listener of \<^verbatim>\<open>_noteoff\<close> returns, it has
  appended exactly one reference to the buffer, that of the registry's \<^verbatim>\<open>Note\<close> for the
  key, and this \<^verbatim>\<open>Note\<close> is frozen and logged at that moment.
\<close>

theorem buffer_holds_frozen_logged_notes:
  assumes "rt = run es (boot ts)"
  shows "(\<forall>b \<in> insert (u_buffer (obj rt)) (set (inflight rt)).
            \<forall>r \<in> set (arrays (obj rt) b).
               \<not> playing (heap (obj rt) r) \<and> r \<in> set (log (obj rt))) \<and>
         (\<forall>now d st' ns. noteoff now (obj rt) d = Inr (st', ns) \<longrightarrow>
            (\<exists>r. map_of (notes_map (obj rt)) (d_key d) = Some r \<and>
                 pending st' = pending (obj rt) @ [r] \<and>
                 \<not> playing (heap st' r) \<and> r \<in> set (log st')))"
proof
  from assms buffers_ok_run [of es ts]
  show "\<forall>b \<in> insert (u_buffer (obj rt)) (set (inflight rt)).
          \<forall>r \<in> set (arrays (obj rt) b).
             \<not> playing (heap (obj rt) r) \<and> r \<in> set (log (obj rt))"
    by (simp add: buffers_ok_def completed_def)
next
  from assms have "inv rt" by (simp add: inv_run inv_boot)
  then show "\<forall>now d st' ns. noteoff now (obj rt) d = Inr (st', ns) \<longrightarrow>
      (\<exists>r. map_of (notes_map (obj rt)) (d_key d) = Some r \<and>
           pending st' = pending (obj rt) @ [r] \<and>
           \<not> playing (heap st' r) \<and> r \<in> set (log st'))"
    using noteoff_pushes_completed [of rt] by (fastforce simp add: completed_def)
qed

lemma example_run_pending:
  "pending (obj (run [Signal 1000 (KeyDown (Detail 60 80 1000)),
      Signal 1500 (KeyUp (Detail 60 0 1500))] (boot ''0''))) = [0]"
  by (simp add: step.simps boot_def MIDI_def noteoff_def Let_def pending_def)

theorem buffer_holds_frozen_logged_notes_witness:
  "pending (obj (run [Signal 1000 (KeyDown (Detail 60 80 1000)),
      Signal 1500 (KeyUp (Detail 60 0 1500))] (boot ''0''))) = [0] \<and>
   \<not> playing (heap (obj (run [Signal 1000 (KeyDown (Detail 60 80 1000)),
      Signal 1500 (KeyUp (Detail 60 0 1500))] (boot ''0''))) 0) \<and>
   0 \<in> set (log (obj (run [Signal 1000 (KeyDown (Detail 60 80 1000)),
      Signal 1500 (KeyUp (Detail 60 0 1500))] (boot ''0'')))) \<and>
   (\<exists>st' ns. noteoff 1500 (obj (run [Signal 1000 (KeyDown (Detail 60 80 1000))] (boot ''0'')))
       (Detail 60 0 1500) = Inr (st', ns) \<and> pending st' = [0] \<and> \<not> playing (heap st' 0))"
  using buffer_holds_frozen_logged_notes [of "run [Signal 1000 (KeyDown (Detail 60 80 1000)),
      Signal 1500 (KeyUp (Detail 60 0 1500))] (boot ''0'')" _ "''0''"]
    example_run_pending
  by (simp add: pending_def)
    (simp add: step.simps boot_def MIDI_def noteoff_def Let_def pending_def playing_def)

section \<open>The fields of a KeyUp that are not read\<close>

lemma noteoff_reads_key_only:
  "d_key d = d_key d' \<Longrightarrow> noteoff now st d = noteoff now st d'"
  by (simp add: noteoff_def split: option.splits)

lemma keyup_alike_step: "keyup_alike e e' \<Longrightarrow> step e rt = step e' rt"
proof (induction e e' rule: keyup_alike.induct)
  case (1 now d now' d')
  then have "noteoff now (obj rt) d = noteoff now' (obj rt) d'"
    using noteoff_reads_key_only [of d d' now "obj rt"] by simp
  then show ?case by (simp add: step.simps)
qed simp_all

text \<open>
  C10. The velocity and the timestamp of a \<open>KeyUp\<close> are not read. The listener gives the
  same result (state and notifications) for two details with the same key at the same
  clock reading, and two runs whose reactions differ only in those two fields of their
  \<open>KeyUp\<close> signals end in the same state: registry, log, buffer and every frozen duration.
\<close>

theorem keyup_velocity_timestamp_unused:
  "noteoff now st (Detail k v t) = noteoff now st (Detail k v' t') \<and>
   (list_all2 keyup_alike es es' \<longrightarrow> run es rt = run es' rt)"
proof
  show "noteoff now st (Detail k v t) = noteoff now st (Detail k v' t')"
    by (rule noteoff_reads_key_only) simp
next
  show "list_all2 keyup_alike es es' \<longrightarrow> run es rt = run es' rt"
  proof
    assume "list_all2 keyup_alike es es'"
    then show "run es rt = run es' rt"
    proof (induction es es' arbitrary: rt rule: list_all2_induct)
      case Nil
      show ?case by simp
    next
      case (Cons e es e' es')
      from Cons.hyps(1) have "step e rt = step e' rt" by (rule keyup_alike_step)
      with Cons.IH [of "step e' rt"] show ?case by simp
    qed
  qed
qed

theorem keyup_velocity_timestamp_unused_witness:
  "list_all2 keyup_alike
     [Signal 1000 (KeyDown (Detail 60 80 1000)), Tick, Signal 1500 (KeyUp (Detail 60 0 1500))]
     [Signal 1000 (KeyDown (Detail 60 80 1000)), Tick, Signal 1500 (KeyUp (Detail 60 99 7))] \<and>
   run [Signal 1000 (KeyDown (Detail 60 80 1000)), Tick, Signal 1500 (KeyUp (Detail 60 0 1500))]
       (boot ''0'') =
   run [Signal 1000 (KeyDown (Detail 60 80 1000)), Tick, Signal 1500 (KeyUp (Detail 60 99 7))]
       (boot ''0'') \<and>
   duration 9999 (heap (obj (run [Signal 1000 (KeyDown (Detail 60 80 1000)), Tick,
       Signal 1500 (KeyUp (Detail 60 99 7))] (boot ''0''))) 0) = 500"
  using keyup_velocity_timestamp_unused [of 1500 "MIDI ''0''" 60 0 1500 99 7
      "[Signal 1000 (KeyDown (Detail 60 80 1000)), Tick, Signal 1500 (KeyUp (Detail 60 0 1500))]"
      "[Signal 1000 (KeyDown (Detail 60 80 1000)), Tick, Signal 1500 (KeyUp (Detail 60 99 7))]"
      "boot ''0''"]
  by (simp add: step.simps boot_def MIDI_def noteoff_def Let_def flush_tick_def duration_def
      new_Note_def)

section \<open>A Note from its press to its release\<close>

lemma unconcerned_step:
  assumes "registry_ok (obj rt)" and "map_of (notes_map (obj rt)) k = Some r" and "\<not> concerns k e"
  shows "map_of (notes_map (obj (step e rt))) k = Some r \<and> heap (obj (step e rt)) r = heap (obj rt) r"
proof (cases rule: step_cases [where e = e and rt = rt])
  case (KeyDown now d)
  from assms(1,2) have "r < u_no (obj rt)" by (simp add: registry_ok_def)
  with KeyDown assms(2,3) show ?thesis by (simp add: step_KeyDown update_conv')
next
  case (KeyUp_present now d r0)
  with assms(3) have ne: "d_key d \<noteq> k" by simp
  from assms(1,2) have "key (heap (obj rt) r) = k" by (simp add: registry_ok_def)
  moreover from assms(1) KeyUp_present(2) have "key (heap (obj rt) r0) = d_key d"
    by (simp add: registry_ok_def)
  ultimately have "r \<noteq> r0" using ne by auto
  with KeyUp_present ne assms(2) show ?thesis by (simp add: step_KeyUp_present)
qed (simp_all add: step_simps assms(2))

lemma unconcerned_run:
  assumes "inv rt" and "map_of (notes_map (obj rt)) k = Some r" and "\<forall>e \<in> set es. \<not> concerns k e"
  shows "map_of (notes_map (obj (run es rt))) k = Some r \<and> heap (obj (run es rt)) r = heap (obj rt) r"
  using assms
proof (induction es arbitrary: rt)
  case Nil
  then show ?case by simp
next
  case (Cons e es)
  from Cons.prems have reg: "registry_ok (obj rt)" by (simp add: inv_def)
  from Cons.prems have "\<not> concerns k e" by simp
  with reg Cons.prems(2)
  have st: "map_of (notes_map (obj (step e rt))) k = Some r \<and> heap (obj (step e rt)) r = heap (obj rt) r"
    by (rule unconcerned_step)
  moreover from Cons.prems(1) have "inv (step e rt)" by (rule inv_step)
  moreover from Cons.prems(3) have "\<forall>e \<in> set es. \<not> concerns k e" by simp
  ultimately show ?case using Cons.IH [of "step e rt"] by simp
qed

lemma frozen_step:
  assumes "registry_ok (obj rt)" and "r < u_no (obj rt)" and "\<not> playing (heap (obj rt) r)"
  shows "heap (obj (step e rt)) r = heap (obj rt) r \<and> r < u_no (obj (step e rt))"
proof (cases rule: step_cases [where e = e and rt = rt])
  case (KeyDown now d)
  with assms(2) show ?thesis by (simp add: step_KeyDown)
next
  case (KeyUp_present now d r0)
  from assms(1) KeyUp_present(2) have "playing (heap (obj rt) r0)"
    by (simp add: registry_ok_def)
  with assms(3) have "r \<noteq> r0" by auto
  with KeyUp_present assms(2) show ?thesis by (simp add: step_KeyUp_present)
qed (simp_all add: step_simps assms(2))

lemma frozen_run:
  assumes "inv rt" and "r < u_no (obj rt)" and "\<not> playing (heap (obj rt) r)"
  shows "heap (obj (run es rt)) r = heap (obj rt) r"
  using assms
proof (induction es arbitrary: rt)
  case Nil
  show ?case by simp
next
  case (Cons e es)
  from Cons.prems have reg: "registry_ok (obj rt)" by (simp add: inv_def)
  from reg Cons.prems(2,3)
  have st: "heap (obj (step e rt)) r = heap (obj rt) r \<and> r < u_no (obj (step e rt))"
    by (rule frozen_step)
  moreover from Cons.prems(1) have "inv (step e rt)" by (rule inv_step)
  ultimately show ?case using Cons.IH [of "step e rt"] Cons.prems(3) by simp
qed

text \<open>
  C1, as the code has it. Let a \<open>KeyDown\<close> for key \<open>k\<close> with velocity \<open>v\<close> and timestamp \<open>t\<close>
  be handled in any reachable state, then any reactions that are not signals for \<open>k\<close>,
  then a \<open>KeyUp\<close> for \<open>k\<close> whose listener runs when the clock reads \<open>c\<close>. The \<^verbatim>\<open>Note\<close>
  constructed at the press keeps its key, velocity and timestamp, is appended to the
  buffer, is no longer playing, and its duration is \<open>c - t\<close> whenever and at whatever
  clock reading \<open>c'\<close> it is read afterwards: no later reaction changes the \<^verbatim>\<open>Note\<close>. The
  timestamp \<open>t'\<close> of the \<open>KeyUp\<close> plays no part; the duration is \<open>t' - t\<close> when \<open>c = t'\<close>.
\<close>

theorem keyup_freezes_duration_at_clock:
  assumes "rt0 = run pre (boot ts)"
    and "rt1 = step (Signal c0 (KeyDown (Detail k v t))) rt0"
    and "\<forall>e \<in> set mid. \<not> concerns k e"
    and "rt2 = run mid rt1"
    and "rt3 = step (Signal c (KeyUp (Detail k v' t'))) rt2"
    and "rt4 = run post rt3"
    and "r = u_no (obj rt0)"
  shows "pending (obj rt3) = pending (obj rt2) @ [r] \<and>
         key (heap (obj rt3) r) = k \<and> velocity (heap (obj rt3) r) = v \<and>
         timestamp (heap (obj rt3) r) = t \<and>
         \<not> playing (heap (obj rt3) r) \<and>
         heap (obj rt4) r = heap (obj rt3) r \<and>
         duration c' (heap (obj rt4) r) = c - t \<and>
         (c = t' \<longrightarrow> duration c' (heap (obj rt4) r) = t' - t)"
proof -
  have inv0: "inv rt0" using assms(1) by (simp add: inv_run inv_boot)
  then have inv1: "inv rt1" using assms(2) by (simp add: inv_step)
  have m1: "map_of (notes_map (obj rt1)) k = Some r"
    using assms(2,7) by (simp add: step_KeyDown update_conv')
  have h1: "heap (obj rt1) r = new_Note (U_TIMESTAMP (obj rt0)) r k v t"
    using assms(2,7) by (simp add: step_KeyDown)
  from inv1 m1 assms(3)
  have "map_of (notes_map (obj (run mid rt1))) k = Some r \<and>
        heap (obj (run mid rt1)) r = heap (obj rt1) r"
    by (rule unconcerned_run)
  with assms(4) h1
  have m2: "map_of (notes_map (obj rt2)) k = Some r"
    and h2: "heap (obj rt2) r = new_Note (U_TIMESTAMP (obj rt0)) r k v t"
    by simp_all
  have inv2: "inv rt2" using inv1 assms(4) by (simp add: inv_run)
  then have inv3: "inv rt3" using assms(5) by (simp add: inv_step)
  from m2 have m2': "map_of (notes_map (obj rt2)) (d_key (Detail k v' t')) = Some r" by simp
  have h3: "heap (obj rt3) r = (new_Note (U_TIMESTAMP (obj rt0)) r k v t)\<lparr>u_duration := Some (c - t)\<rparr>"
    using assms(5) h2 by (simp add: step_KeyUp_present [OF m2'] duration_def new_Note_def)
  have p3: "pending (obj rt3) = pending (obj rt2) @ [r]"
    using assms(5) by (simp add: step_KeyUp_present [OF m2'] pending_def)
  have n3: "u_no (obj rt3) = u_no (obj rt2)"
    using assms(5) by (simp add: step_KeyUp_present [OF m2'])
  from inv2 m2 have "r < u_no (obj rt2)" by (simp add: inv_def registry_ok_def)
  with n3 have r3: "r < u_no (obj rt3)" by simp
  from h3 have f3: "\<not> playing (heap (obj rt3) r)" by (simp add: playing_def)
  from inv3 r3 f3 have "heap (obj (run post rt3)) r = heap (obj rt3) r" by (rule frozen_run)
  with assms(6) have h4: "heap (obj rt4) r = heap (obj rt3) r" by simp
  from h3 h4 have d4: "duration c' (heap (obj rt4) r) = c - t" by (simp add: duration_def)
  from p3 h3 f3 h4 d4 show ?thesis by (simp add: new_Note_def duration_def)
qed


theorem keyup_freezes_duration_at_clock_witness:
  "\<not> concerns 60 (Signal 1200 (KeyDown (Detail 62 70 1200))) \<and> \<not> concerns 60 Tick \<and>
   heap (obj (run [Tick, Signal 99999 (KeyDown (Detail 60 90 99999))]
      (step (Signal 1501 (KeyUp (Detail 60 0 1500)))
        (run [Signal 1200 (KeyDown (Detail 62 70 1200)), Tick]
          (step (Signal 1000 (KeyDown (Detail 60 80 1000))) (run [] (boot ''0''))))))) 0 =
     \<lparr>u_id = ''0.0'', key = 60, velocity = 80, timestamp = 1000, u_duration = Some 501\<rparr> \<and>
   duration 123456 (heap (obj (run [Tick, Signal 99999 (KeyDown (Detail 60 90 99999))]
      (step (Signal 1501 (KeyUp (Detail 60 0 1500)))
        (run [Signal 1200 (KeyDown (Detail 62 70 1200)), Tick]
          (step (Signal 1000 (KeyDown (Detail 60 80 1000))) (run [] (boot ''0''))))))) 0) = 501"
proof -
  have hyp: "\<forall>e \<in> set [Signal 1200 (KeyDown (Detail 62 70 1200)), Tick]. \<not> concerns 60 e"
    by simp
  have val: "heap (obj (run [Tick, Signal 99999 (KeyDown (Detail 60 90 99999))]
      (step (Signal 1501 (KeyUp (Detail 60 0 1500)))
        (run [Signal 1200 (KeyDown (Detail 62 70 1200)), Tick]
          (step (Signal 1000 (KeyDown (Detail 60 80 1000))) (run [] (boot ''0''))))))) 0 =
     \<lparr>u_id = ''0.0'', key = 60, velocity = 80, timestamp = 1000, u_duration = Some 501\<rparr>"
    by (simp add: step.simps boot_def MIDI_def noteoff_def Let_def flush_tick_def duration_def
        new_Note_def show_nat_0)
  from keyup_freezes_duration_at_clock [where pre = "[]" and ts = "''0''" and ?c0.0 = 1000
      and k = 60 and v = 80 and t = 1000
      and mid = "[Signal 1200 (KeyDown (Detail 62 70 1200)), Tick]"
      and c = 1501 and v' = 0 and t' = 1500
      and post = "[Tick, Signal 99999 (KeyDown (Detail 60 90 99999))]" and c' = 123456,
      OF refl refl hyp refl refl refl refl]
  have "duration 123456 (heap (obj (run [Tick, Signal 99999 (KeyDown (Detail 60 90 99999))]
      (step (Signal 1501 (KeyUp (Detail 60 0 1500)))
        (run [Signal 1200 (KeyDown (Detail 62 70 1200)), Tick]
          (step (Signal 1000 (KeyDown (Detail 60 80 1000))) (run [] (boot ''0''))))))) 
            (u_no (obj (run [] (boot ''0''))))) = 1501 - 1000"
    by blast
  then have "duration 123456 (heap (obj (run [Tick, Signal 99999 (KeyDown (Detail 60 90 99999))]
      (step (Signal 1501 (KeyUp (Detail 60 0 1500)))
        (run [Signal 1200 (KeyDown (Detail 62 70 1200)), Tick]
          (step (Signal 1000 (KeyDown (Detail 60 80 1000))) (run [] (boot ''0''))))))) 0) = 501"
    by (simp add: boot_def MIDI_def)
  with val show ?thesis by simp
qed

text \<open>
  The claim as the specification words it: the duration is \<open>t' - t\<close>, with \<open>t'\<close> the timestamp
  the \<open>KeyUp\<close> carries. It fails when the clock has moved on between the moment the signal
  was stamped and the moment the getter reads the clock: press stamped 1000, release
  stamped 1500 and handled at 1501.
\<close>

theorem duration_is_not_signal_timestamp_difference:
  "duration 9999 (heap (obj (run [Signal 1000 (KeyDown (Detail 60 80 1000)),
      Signal 1501 (KeyUp (Detail 60 0 1500))] (boot ''0''))) 0) \<noteq> 1500 - 1000"
  by (simp add: step.simps boot_def MIDI_def noteoff_def Let_def duration_def new_Note_def)

section \<open>The batch of a send in flight\<close>

lemma detached_run:
  "detached b (obj rt) \<Longrightarrow>
   detached b (obj (run es rt)) \<and> arrays (obj (run es rt)) b = arrays (obj rt) b"
proof (induction es arbitrary: rt)
  case Nil
  then show ?case by simp
next
  case (Cons e es)
  from Cons.prems
  have "detached b (obj (step e rt)) \<and> arrays (obj (step e rt)) b = arrays (obj rt) b"
    by (rule detached_step)
  with Cons.IH [of "step e rt"] show ?case by simp
qed

lemma noteoff_spares_detached:
  assumes "detached b st" and "noteoff now st d = Inr (st', ns)"
  shows "\<exists>r. map_of (notes_map st) (d_key d) = Some r \<and> pending st' = pending st @ [r] \<and>
     arrays st' b = arrays st b"
proof (cases "map_of (notes_map st) (d_key d)")
  case None
  with assms(2) show ?thesis by (simp add: noteoff_absent)
next
  case (Some r)
  with assms show ?thesis
    by (auto simp add: noteoff_present pending_def detached_def)
qed

lemma flush_resume_ok: "flush_resume b (Fulfilled True) st = Inr st"
  by (simp add: flush_resume_def)

lemma flush_resume_not_ok:
  "flush_resume b (Fulfilled False) st = Inr st' \<Longrightarrow> pending st' = arrays st b @ pending st"
  by (auto simp add: flush_resume_def pending_def)

text \<open>
  The callback marked \<^verbatim>\<open>async\<close>, which the source does not have (the callback of the
  source is \<open>shipped_callback_never_detaches\<close> below). In a reachable state whose buffer
  is not empty, the tick hands the array the buffer
  refers to over to the send as its batch, and binds the buffer to a new, empty array,
  before the send is started. Whatever happens afterwards (signals, further ticks, sends
  that settle), the batch keeps exactly the elements it had at the tick: a \<^verbatim>\<open>Note\<close>
  released later is appended to the array the buffer then refers to, never to the batch.
  When the send succeeds the callback changes nothing, so the batch is dropped and the
  buffer keeps what was added meanwhile.
\<close>

theorem tick_detaches_batch:
  assumes "rt = run pre (boot ts)" and "pending (obj rt) \<noteq> []"
    and "b = u_buffer (obj rt)" and "rt' = run es (step Tick rt)"
  shows "(\<exists>st1 body. flush_tick (obj rt) = (st1, Some (b, body)) \<and> obj (step Tick rt) = st1 \<and>
            arrays st1 b = pending (obj rt) \<and> pending st1 = [] \<and> u_buffer st1 \<noteq> b) \<and>
         inflight (step Tick rt) = inflight rt @ [b] \<and>
         arrays (obj rt') b = pending (obj rt) \<and>
         u_buffer (obj rt') \<noteq> b \<and>
         (\<forall>now d st' ns. noteoff now (obj rt') d = Inr (st', ns) \<longrightarrow>
            (\<exists>r. pending st' = pending (obj rt') @ [r] \<and> arrays st' b = pending (obj rt))) \<and>
         flush_resume b (Fulfilled True) (obj rt') = Inr (obj rt') \<and>
         (\<forall>i. i < length (inflight rt') \<longrightarrow> obj (step (Settle i (Fulfilled True)) rt') = obj rt')"
proof -
  from assms(1) have "inv rt" by (simp add: inv_run inv_boot)
  then have lt: "u_buffer (obj rt) < next_array (obj rt)" by (simp add: inv_def arrays_ok_def)
  from assms(2) have ne: "arrays (obj rt) (u_buffer (obj rt)) \<noteq> []" by (simp add: pending_def)
  have tick: "flush_tick (obj rt) =
      (obj (step Tick rt), Some (b, Array_toString (obj (step Tick rt)) b))"
    using ne assms(3) by (simp add: step_Tick_nonempty [OF assms(2)] flush_tick_def Let_def)
  have a1: "arrays (obj (step Tick rt)) b = pending (obj rt)"
    using lt assms(3) by (simp add: step_Tick_nonempty [OF assms(2)] pending_def)
  have p1: "pending (obj (step Tick rt)) = []"
    by (simp add: step_Tick_nonempty [OF assms(2)] pending_def)
  have d1: "detached b (obj (step Tick rt))"
    using lt assms(3) by (simp add: step_Tick_nonempty [OF assms(2)] detached_def)
  have i1: "inflight (step Tick rt) = inflight rt @ [b]"
    using assms(3) by (simp add: step_Tick_nonempty [OF assms(2)])
  from d1 have "detached b (obj (run es (step Tick rt))) \<and>
      arrays (obj (run es (step Tick rt))) b = arrays (obj (step Tick rt)) b"
    by (rule detached_run)
  with assms(4) a1 have d': "detached b (obj rt')" and a': "arrays (obj rt') b = pending (obj rt)"
    by simp_all
  have off: "\<forall>now d st' ns. noteoff now (obj rt') d = Inr (st', ns) \<longrightarrow>
      (\<exists>r. pending st' = pending (obj rt') @ [r] \<and> arrays st' b = pending (obj rt))"
    using noteoff_spares_detached [OF d'] a' by fastforce
  have ok: "\<forall>i. i < length (inflight rt') \<longrightarrow> obj (step (Settle i (Fulfilled True)) rt') = obj rt'"
    by (simp add: step_Settle_quiet)
  from tick a1 p1 d1 i1 d' a' off ok show ?thesis
    by (simp add: detached_def flush_resume_ok)
qed


lemma example_flight_before:
  "pending (obj (run [Signal 1000 (KeyDown (Detail 60 80 1000)), Signal 1500 (KeyUp (Detail 60 0 1500))] (boot ''0''))) = [0] \<and>
   u_buffer (obj (run [Signal 1000 (KeyDown (Detail 60 80 1000)), Signal 1500 (KeyUp (Detail 60 0 1500))] (boot ''0''))) = 0"
  by (simp add: step.simps boot_def MIDI_def noteoff_def Let_def pending_def)

lemma example_flight_after:
  "pending (obj (run [Signal 1600 (KeyDown (Detail 62 70 1600)), Signal 2000 (KeyUp (Detail 62 0 2000))]
        (step Tick (run [Signal 1000 (KeyDown (Detail 60 80 1000)), Signal 1500 (KeyUp (Detail 60 0 1500))] (boot ''0''))))) = [1] \<and>
   inflight (run [Signal 1600 (KeyDown (Detail 62 70 1600)), Signal 2000 (KeyUp (Detail 62 0 2000))]
        (step Tick (run [Signal 1000 (KeyDown (Detail 60 80 1000)), Signal 1500 (KeyUp (Detail 60 0 1500))] (boot ''0'')))) = [0]"
  by (simp add: step.simps boot_def MIDI_def noteoff_def Let_def pending_def flush_tick_def)

theorem tick_detaches_batch_witness:
  "pending (obj (run [Signal 1000 (KeyDown (Detail 60 80 1000)), Signal 1500 (KeyUp (Detail 60 0 1500))] (boot ''0''))) = [0] \<and>
   u_buffer (obj (run [Signal 1000 (KeyDown (Detail 60 80 1000)), Signal 1500 (KeyUp (Detail 60 0 1500))] (boot ''0''))) = 0 \<and>
   arrays (obj (run [Signal 1600 (KeyDown (Detail 62 70 1600)), Signal 2000 (KeyUp (Detail 62 0 2000))]
        (step Tick (run [Signal 1000 (KeyDown (Detail 60 80 1000)), Signal 1500 (KeyUp (Detail 60 0 1500))] (boot ''0''))))) 0 = [0] \<and>
   pending (obj (run [Signal 1600 (KeyDown (Detail 62 70 1600)), Signal 2000 (KeyUp (Detail 62 0 2000))]
        (step Tick (run [Signal 1000 (KeyDown (Detail 60 80 1000)), Signal 1500 (KeyUp (Detail 60 0 1500))] (boot ''0''))))) = [1] \<and>
   pending (obj (step (Settle 0 (Fulfilled True)) (run [Signal 1600 (KeyDown (Detail 62 70 1600)), Signal 2000 (KeyUp (Detail 62 0 2000))]
        (step Tick (run [Signal 1000 (KeyDown (Detail 60 80 1000)), Signal 1500 (KeyUp (Detail 60 0 1500))] (boot ''0'')))))) = [1]"
proof -
  have ne: "pending (obj (run [Signal 1000 (KeyDown (Detail 60 80 1000)), Signal 1500 (KeyUp (Detail 60 0 1500))] (boot ''0''))) \<noteq> []"
    using example_flight_before by simp
  have b: "0 = u_buffer (obj (run [Signal 1000 (KeyDown (Detail 60 80 1000)), Signal 1500 (KeyUp (Detail 60 0 1500))] (boot ''0'')))"
    using example_flight_before by simp
  note inst = tick_detaches_batch [where pre = "[Signal 1000 (KeyDown (Detail 60 80 1000)), Signal 1500 (KeyUp (Detail 60 0 1500))]" and ts = "''0''"
      and es = "[Signal 1600 (KeyDown (Detail 62 70 1600)), Signal 2000 (KeyUp (Detail 62 0 2000))]", OF refl ne b refl]
  from inst have "arrays (obj (run [Signal 1600 (KeyDown (Detail 62 70 1600)), Signal 2000 (KeyUp (Detail 62 0 2000))]
        (step Tick (run [Signal 1000 (KeyDown (Detail 60 80 1000)), Signal 1500 (KeyUp (Detail 60 0 1500))] (boot ''0''))))) 0 =
      pending (obj (run [Signal 1000 (KeyDown (Detail 60 80 1000)), Signal 1500 (KeyUp (Detail 60 0 1500))] (boot ''0'')))"
    by blast
  moreover from inst example_flight_after
  have "obj (step (Settle 0 (Fulfilled True)) (run [Signal 1600 (KeyDown (Detail 62 70 1600)), Signal 2000 (KeyUp (Detail 62 0 2000))]
        (step Tick (run [Signal 1000 (KeyDown (Detail 60 80 1000)), Signal 1500 (KeyUp (Detail 60 0 1500))] (boot ''0''))))) =
      obj (run [Signal 1600 (KeyDown (Detail 62 70 1600)), Signal 2000 (KeyUp (Detail 62 0 2000))]
        (step Tick (run [Signal 1000 (KeyDown (Detail 60 80 1000)), Signal 1500 (KeyUp (Detail 60 0 1500))] (boot ''0''))))"
    by simp
  ultimately show ?thesis using example_flight_before example_flight_after by simp
qed

section \<open>Where the code departs from its documentation\<close>

text \<open>
  C3. A \<open>KeyUp\<close> for a key that has no entry in the registry: \<^verbatim>\<open>this.notes.get(key)\<close> is
  \<^verbatim>\<open>undefined\<close> and the listener ends with a \<^verbatim>\<open>TypeError\<close> instead of returning. Here
  the very first signal is a \<open>KeyUp\<close> for key 60.
\<close>

theorem noteoff_unknown_key_throws:
  "noteoff 1500 (MIDI ''0'') (Detail 60 0 1500) = Inl TypeError"
  by (simp add: noteoff_def MIDI_def)


text \<open>
  C6. The notifications of a release after a press of key 60: \<^verbatim>\<open>beforenoteoff\<close> is
  constructed without an init dictionary (the object with the detail is passed to
  \<^verbatim>\<open>dispatchEvent\<close> instead), so its detail is \<^verbatim>\<open>null\<close>; \<^verbatim>\<open>noteoff\<close> carries the
  \<^verbatim>\<open>Note\<close>.
\<close>

theorem beforenoteoff_detail_is_null:
  "map_sum id snd (noteoff 1500 (fst (noteon (MIDI ''0'') (Detail 60 80 1000))) (Detail 60 0 1500)) =
     Inr [(''beforenoteoff'', JNull), (''noteoff'', JRef 0)]"
  by (simp add: noteoff_def MIDI_def Let_def dispatchEvent_def CustomEvent_def)

lemma Array_toString_length_only:
  "Array_toString st a = join '','' (replicate (length (arrays st a)) ''[object Object]'')"
  by (simp add: Array_toString_def Note_toString_def map_replicate_const)

text \<open>
  C7. The body of the request for a buffer that holds two completed \<^verbatim>\<open>Note\<close>s (keys 60
  and 62), as the body of the callback builds it: the array is passed as it is, not through \<^verbatim>\<open>JSON.stringify\<close>, so the body
  is the string conversion of the array, which is not JSON and holds none of the fields.
\<close>

theorem request_body_is_not_serialized:
  "map_option snd (snd (flush_tick (obj (run
      [Signal 1000 (KeyDown (Detail 60 80 1000)), Signal 1200 (KeyDown (Detail 62 70 1200)),
       Signal 1500 (KeyUp (Detail 60 0 1500)), Signal 1700 (KeyUp (Detail 62 0 1700))]
      (boot ''0''))))) = Some ''[object Object],[object Object]''"
  by (simp add: step.simps boot_def MIDI_def noteoff_def Let_def flush_tick_def
      Array_toString_def Note_toString_def)

text \<open>
  C8. The serialization view of any \<^verbatim>\<open>Note\<close> has \<^verbatim>\<open>undefined\<close> under \<^verbatim>\<open>id\<close>:
  \<^verbatim>\<open>toJSON\<close> reads \<^verbatim>\<open>this.id\<close>, and the constructor stored the identifier in
  \<^verbatim>\<open>this._id\<close>. For the first \<^verbatim>\<open>Note\<close> of a module loaded at 1730628000.123 the
  identifier is \<^verbatim>\<open>1730628000.123.0\<close>.
\<close>

theorem toJSON_id_is_undefined:
  "map_of (toJSON now n) ''id'' = Some JUndefined \<and>
   u_id (new_Note ''1730628000.123'' 0 60 80 1000) = ''1730628000.123.0'' \<and>
   toJSON 1500 (new_Note ''1730628000.123'' 0 60 80 1000) =
     [(''id'', JUndefined), (''key'', JNum 60), (''velocity'', JNum 80),
      (''timestamp'', JNum 1000), (''duration'', JNum 500)]"
  by (simp add: toJSON_def get_prop_def new_Note_def show_nat_0 duration_def)

text \<open>
  C2. A press and a release of key 60, a tick, and the send settles, with the callback
  marked \<^verbatim>\<open>async\<close> so that it runs. When the response
  is not ok the batch is put back in front of the buffer. When the promise is rejected
  the \<^verbatim>\<open>await\<close> throws, the rest of the callback is skipped, and the \<^verbatim>\<open>Note\<close> is left
  in no array that the buffer or a suspended send refers to.
\<close>

theorem rejected_send_loses_batch:
  "flush_resume 0 Rejected st = Inl NetworkError \<and>
   pending (obj (run [Signal 1000 (KeyDown (Detail 60 80 1000)),
      Signal 1500 (KeyUp (Detail 60 0 1500)), Tick, Settle 0 (Fulfilled False)] (boot ''0''))) = [0] \<and>
   pending (obj (run [Signal 1000 (KeyDown (Detail 60 80 1000)),
      Signal 1500 (KeyUp (Detail 60 0 1500)), Tick, Settle 0 Rejected] (boot ''0''))) = [] \<and>
   inflight (run [Signal 1000 (KeyDown (Detail 60 80 1000)),
      Signal 1500 (KeyUp (Detail 60 0 1500)), Tick, Settle 0 Rejected] (boot ''0'')) = []"
  by (simp add: step.simps boot_def MIDI_def noteoff_def Let_def flush_tick_def
      flush_resume_def pending_def)

section \<open>Further properties\<close>

text \<open>
  The callback marked \<^verbatim>\<open>async\<close>: a send that is answered with a response that is not
  ok. The batch is put back in front of what the buffer holds by then, in a new array,
  and nothing else changes.
\<close>

theorem not_ok_send_remerges_batch:
  "\<exists>st'. flush_resume b (Fulfilled False) st = Inr st' \<and>
      pending st' = arrays st b @ pending st \<and>
      heap st' = heap st \<and> log st' = log st \<and> notes_map st' = notes_map st"
  by (simp add: flush_resume_def pending_def)

text \<open>While a \<^verbatim>\<open>Note\<close> is playing, its duration grows strictly with the clock.\<close>

theorem live_duration_strictly_increases:
  "playing n \<Longrightarrow> c < c' \<Longrightarrow> duration c n < duration c' n"
  by (simp add: playing_def duration_def)

theorem live_duration_strictly_increases_witness:
  "playing (new_Note ''0'' 0 60 80 1000) \<and> duration 1200 (new_Note ''0'' 0 60 80 1000) = 200 \<and>
   duration 1500 (new_Note ''0'' 0 60 80 1000) = 500"
  using live_duration_strictly_increases [of "new_Note ''0'' 0 60 80 1000" 1200 1500]
  by (simp add: playing_def duration_def new_Note_def)

text \<open>
  The listener of \<^verbatim>\<open>_noteon\<close> never fails. It constructs one \<^verbatim>\<open>Note\<close> from the detail,
  appends it to the log, makes it the registry's entry for the key (replacing an entry
  the key had), and both of its notifications carry that \<^verbatim>\<open>Note\<close>.
\<close>

theorem noteon_registers_and_notifies:
  "heap (fst (noteon st d)) (u_no st) =
     new_Note (U_TIMESTAMP st) (u_no st) (d_key d) (d_velocity d) (d_timestamp d) \<and>
   log (fst (noteon st d)) = log st @ [u_no st] \<and>
   map_of (notes_map (fst (noteon st d))) (d_key d) = Some (u_no st) \<and>
   pending (fst (noteon st d)) = pending st \<and>
   snd (noteon st d) = [(''beforenoteon'', JRef (u_no st)), (''noteon'', JRef (u_no st))]"
  by (simp add: noteon_events update_conv' pending_def)

text \<open>
  Two presses of key 60 with no release between them: the registry holds the second
  \<^verbatim>\<open>Note\<close> only, the log holds both, and a release then freezes the second one and
  leaves the first one playing.
\<close>

theorem second_press_replaces_first:
  "notes_map (obj (run [Signal 1000 (KeyDown (Detail 60 80 1000)),
      Signal 1100 (KeyDown (Detail 60 90 1100))] (boot ''0''))) = [(60, 1)] \<and>
   log (obj (run [Signal 1000 (KeyDown (Detail 60 80 1000)),
      Signal 1100 (KeyDown (Detail 60 90 1100))] (boot ''0''))) = [0, 1] \<and>
   pending (obj (run [Signal 1000 (KeyDown (Detail 60 80 1000)),
      Signal 1100 (KeyDown (Detail 60 90 1100)),
      Signal 1500 (KeyUp (Detail 60 0 1500))] (boot ''0''))) = [1] \<and>
   playing (heap (obj (run [Signal 1000 (KeyDown (Detail 60 80 1000)),
      Signal 1100 (KeyDown (Detail 60 90 1100)),
      Signal 1500 (KeyUp (Detail 60 0 1500))] (boot ''0''))) 0)"
  by (simp add: step.simps boot_def MIDI_def noteoff_def Let_def pending_def playing_def
      new_Note_def)

text \<open>
  The callback marked \<^verbatim>\<open>async\<close>: two \<^verbatim>\<open>Note\<close>s are completed before a tick, a third
  one while the send is in flight, and the response is not ok. The next tick sends all three, the first two before the
  third, and leaves the buffer empty.
\<close>

theorem failed_send_is_retried_in_order:
  "arrays
     (obj (run [Signal 1000 (KeyDown (Detail 60 80 1000)), Signal 1100 (KeyDown (Detail 62 80 1100)),
        Signal 1500 (KeyUp (Detail 60 0 1500)), Signal 1600 (KeyUp (Detail 62 0 1600)),
        Tick,
        Signal 1700 (KeyDown (Detail 64 80 1700)), Signal 1800 (KeyUp (Detail 64 0 1800)),
        Settle 0 (Fulfilled False), Tick] (boot ''0'')))
     (hd (inflight (run [Signal 1000 (KeyDown (Detail 60 80 1000)), Signal 1100 (KeyDown (Detail 62 80 1100)),
        Signal 1500 (KeyUp (Detail 60 0 1500)), Signal 1600 (KeyUp (Detail 62 0 1600)),
        Tick,
        Signal 1700 (KeyDown (Detail 64 80 1700)), Signal 1800 (KeyUp (Detail 64 0 1800)),
        Settle 0 (Fulfilled False), Tick] (boot ''0'')))) = [0, 1, 2] \<and>
   length (inflight (run [Signal 1000 (KeyDown (Detail 60 80 1000)), Signal 1100 (KeyDown (Detail 62 80 1100)),
        Signal 1500 (KeyUp (Detail 60 0 1500)), Signal 1600 (KeyUp (Detail 62 0 1600)),
        Tick,
        Signal 1700 (KeyDown (Detail 64 80 1700)), Signal 1800 (KeyUp (Detail 64 0 1800)),
        Settle 0 (Fulfilled False), Tick] (boot ''0''))) = 1 \<and>
   pending (obj (run [Signal 1000 (KeyDown (Detail 60 80 1000)), Signal 1100 (KeyDown (Detail 62 80 1100)),
        Signal 1500 (KeyUp (Detail 60 0 1500)), Signal 1600 (KeyUp (Detail 62 0 1600)),
        Tick,
        Signal 1700 (KeyDown (Detail 64 80 1700)), Signal 1800 (KeyUp (Detail 64 0 1800)),
        Settle 0 (Fulfilled False), Tick] (boot ''0''))) = []"
  by (simp add: step.simps boot_def MIDI_def noteoff_def Let_def pending_def flush_tick_def
      flush_resume_def)


text \<open>
  A press of key 60 with velocity 80 stamped 1000 and its release handled when the clock
  reads 1500: the \<^verbatim>\<open>Note\<close> has duration 500 and is not playing.
\<close>

theorem press_release_scenario:
  "heap (obj (run [Signal 1000 (KeyDown (Detail 60 80 1000)),
      Signal 1500 (KeyUp (Detail 60 0 1500))] (boot ''0''))) 0 =
     \<lparr>u_id = ''0.0'', key = 60, velocity = 80, timestamp = 1000, u_duration = Some 500\<rparr> \<and>
   \<not> playing (heap (obj (run [Signal 1000 (KeyDown (Detail 60 80 1000)),
      Signal 1500 (KeyUp (Detail 60 0 1500))] (boot ''0''))) 0) \<and>
   \<not> MIDI_playing (obj (run [Signal 1000 (KeyDown (Detail 60 80 1000)),
      Signal 1500 (KeyUp (Detail 60 0 1500))] (boot ''0'')))"
  by (simp add: step.simps boot_def MIDI_def noteoff_def Let_def playing_def duration_def
      new_Note_def show_nat_0 MIDI_playing_def)

end
